theory Spec2Isabelle
  imports Main
begin

section \<open>Text and character classes\<close>

text \<open>
  A Python \<open>str\<close> is a sequence of Unicode code points, so a text is a list of
  code points (natural numbers), not of bytes: the euro sign is the single element
  \<open>8364\<close> (U+20AC).  \<open>ustr\<close> turns an ASCII literal into such a text.
\<close>

type_synonym ustring = "nat list"

definition ustr :: "string \<Rightarrow> ustring" where
  "ustr s = map of_char s"

definition euro :: nat where
  "euro = 8364"

text \<open>
  The classes \<open>\d\<close> and \<open>\w\<close> of the \<open>re\<close> module are read from the Unicode
  database of the interpreter, which is no part of the repository.  Their ASCII part is
  fixed (\<open>0-9\<close>, and \<open>0-9A-Za-z_\<close>); what they contain beyond ASCII is taken as a
  parameter: \<open>decimal_digit\<close> (the decimal digits of category Nd) and
  \<open>alphanumeric\<close> (\<open>str.isalnum\<close>).
\<close>

record unicode_tables =
  decimal_digit :: "nat \<Rightarrow> bool"
  alphanumeric :: "nat \<Rightarrow> bool"

definition ascii_tables :: unicode_tables where
  "ascii_tables = \<lparr>decimal_digit = (\<lambda>c. False), alphanumeric = (\<lambda>c. False)\<rparr>"

definition is_decimal :: "unicode_tables \<Rightarrow> nat \<Rightarrow> bool" where
  "is_decimal U c = (if c < 128 then 48 \<le> c \<and> c \<le> 57 else decimal_digit U c)"

text \<open>\<open>\s\<close> on a \<open>str\<close> pattern: the code points for which \<open>str.isspace\<close> holds.\<close>

definition is_space :: "nat \<Rightarrow> bool" where
  "is_space c =
     ((9 \<le> c \<and> c \<le> 13) \<or> (28 \<le> c \<and> c \<le> 32) \<or> c = 133 \<or> c = 160 \<or> c = 5760 \<or>
      (8192 \<le> c \<and> c \<le> 8202) \<or> c = 8232 \<or> c = 8233 \<or> c = 8239 \<or> c = 8287 \<or> c = 12288)"

definition is_word :: "unicode_tables \<Rightarrow> nat \<Rightarrow> bool" where
  "is_word U c =
     (if c < 128
      then (48 \<le> c \<and> c \<le> 57) \<or> (65 \<le> c \<and> c \<le> 90) \<or> (97 \<le> c \<and> c \<le> 122) \<or> c = 95
      else alphanumeric U c)"

text \<open>
  Under \<open>re.IGNORECASE\<close> an ASCII letter of the pattern matches its lower and its
  upper case form, and the code points that the simple case mapping of the \<open>re\<close>
  module identifies with them: U+0130 and U+0131 with \<open>i\<close>, U+017F with \<open>s\<close>,
  U+212A with \<open>k\<close>.  Any other ASCII character matches only itself.  (All pattern
  characters compiled with \<open>re.IGNORECASE\<close> in this program are ASCII.)
\<close>

definition ignorecase_variants :: "nat \<Rightarrow> nat list" where
  "ignorecase_variants p =
     (if (65 \<le> p \<and> p \<le> 90) \<or> (97 \<le> p \<and> p \<le> 122)
      then (let l = (if p \<le> 90 then p + 32 else p)
            in [l, l - 32] @
               (if l = 105 then [304, 305] else if l = 115 then [383]
                else if l = 107 then [8490] else []))
      else [p])"

section \<open>The regular expressions of the \<open>re\<close> module that the program uses\<close>

text \<open>
  An atom consumes one character: a literal, \<open>\d\<close>, \<open>\s\<close> or a range \<open>a-b\<close>.
  A node of a pattern is a character set (a list of atoms: \<open>[\d,]\<close> is
  \<open>[Digit, Chr 44]\<close>, a single atom outside brackets is a one-element set) repeated
  greedily between \<open>lo\<close> and \<open>hi\<close> times (\<open>None\<close>: no upper bound), a parenthesis
  of the capturing group 1, or the word boundary \<open>\b\<close>.
\<close>

datatype atom = Chr nat | Digit | Space | Range nat nat

datatype node = Rep "atom list" nat "nat option" | GroupOpen | GroupClose | Boundary

abbreviation One :: "atom \<Rightarrow> node" where
  "One a \<equiv> Rep [a] 1 (Some 1)"

fun atom_ok :: "unicode_tables \<Rightarrow> bool \<Rightarrow> atom \<Rightarrow> nat \<Rightarrow> bool" where
  "atom_ok U ic (Chr p) c = (if ic then c \<in> set (ignorecase_variants p) else c = p)"
| "atom_ok U ic Digit c = is_decimal U c"
| "atom_ok U ic Space c = is_space c"
| "atom_ok U ic (Range lo hi) c =
     (if ic then (\<exists>p \<in> set [lo..<Suc hi]. c \<in> set (ignorecase_variants p))
      else lo \<le> c \<and> c \<le> hi)"

definition set_ok :: "unicode_tables \<Rightarrow> bool \<Rightarrow> atom list \<Rightarrow> nat \<Rightarrow> bool" where
  "set_ok U ic as c = (\<exists>a \<in> set as. atom_ok U ic a c)"

text \<open>
  \<open>\b\<close> holds between two characters when exactly one of them is a word character;
  beyond either end of the text there is none.  The matcher carries the character
  before the current position (\<open>None\<close> at the start of the text).
\<close>

definition word_before :: "unicode_tables \<Rightarrow> nat option \<Rightarrow> bool" where
  "word_before U prev = (case prev of None \<Rightarrow> False | Some c \<Rightarrow> is_word U c)"

definition word_after :: "unicode_tables \<Rightarrow> ustring \<Rightarrow> bool" where
  "word_after U s = (case s of [] \<Rightarrow> False | c # cs \<Rightarrow> is_word U c)"

definition at_boundary :: "unicode_tables \<Rightarrow> nat option \<Rightarrow> ustring \<Rightarrow> bool" where
  "at_boundary U prev s = (word_before U prev \<noteq> word_after U s)"

definition below :: "nat \<Rightarrow> nat option \<Rightarrow> bool" where
  "below k hi = (case hi of None \<Rightarrow> True | Some h \<Rightarrow> k < h)"

text \<open>
  The greedy repetition of a character set, with backtracking: after \<open>k\<close>
  repetitions it takes one more character while it may (the character is in the set and
  \<open>k\<close> is below \<open>hi\<close>); the rest of the pattern, the continuation \<open>cont\<close>, is
  tried after the longest run first, then after each shorter one down to \<open>lo\<close>
  repetitions, and the first success is the result.  \<open>i\<close> is the current position.
\<close>

primrec rep_greedy ::
  "(nat \<Rightarrow> bool) \<Rightarrow> nat \<Rightarrow> nat option \<Rightarrow> (nat option \<Rightarrow> ustring \<Rightarrow> nat \<Rightarrow> 'a option)
     \<Rightarrow> nat \<Rightarrow> nat option \<Rightarrow> ustring \<Rightarrow> nat \<Rightarrow> 'a option" where
  "rep_greedy ok lo hi cont k prev [] i = (if lo \<le> k then cont prev [] i else None)"
| "rep_greedy ok lo hi cont k prev (c # cs) i =
     (if ok c \<and> below k hi
      then (case rep_greedy ok lo hi cont (Suc k) (Some c) cs (Suc i) of
              Some r \<Rightarrow> Some r
            | None \<Rightarrow> (if lo \<le> k then cont prev (c # cs) i else None))
      else (if lo \<le> k then cont prev (c # cs) i else None))"

text \<open>
  \<open>match_here U ic p prev s i gs g\<close> matches the pattern \<open>p\<close> at position \<open>i\<close>
  of the text, where \<open>s\<close> is the text from \<open>i\<close> on and \<open>prev\<close> the character
  before it (\<open>ic\<close>: \<open>re.IGNORECASE\<close>); \<open>gs\<close> is the start of the open group and
  \<open>g\<close> the span of group 1 so far.  The result is the end of the match and the span
  of group 1.
\<close>

primrec match_here ::
  "unicode_tables \<Rightarrow> bool \<Rightarrow> node list \<Rightarrow> nat option \<Rightarrow> ustring \<Rightarrow> nat \<Rightarrow> nat option
     \<Rightarrow> (nat \<times> nat) option \<Rightarrow> (nat \<times> (nat \<times> nat) option) option" where
  "match_here U ic [] prev s i gs g = Some (i, g)"
| "match_here U ic (n # ns) prev s i gs g =
     (case n of
        Rep as lo hi \<Rightarrow>
          rep_greedy (set_ok U ic as) lo hi
            (\<lambda>prev' s' i'. match_here U ic ns prev' s' i' gs g) 0 prev s i
      | GroupOpen \<Rightarrow> match_here U ic ns prev s i (Some i) g
      | GroupClose \<Rightarrow>
          match_here U ic ns prev s i gs (case gs of None \<Rightarrow> g | Some b \<Rightarrow> Some (b, i))
      | Boundary \<Rightarrow> (if at_boundary U prev s then match_here U ic ns prev s i gs g else None))"

text \<open>A match object: where the match starts and ends, and the span of group 1.\<close>

record rmatch =
  m_start :: nat
  m_end :: nat
  m_group1 :: "(nat \<times> nat) option"

definition try_at ::
  "unicode_tables \<Rightarrow> bool \<Rightarrow> node list \<Rightarrow> nat option \<Rightarrow> ustring \<Rightarrow> nat \<Rightarrow> rmatch option" where
  "try_at U ic p prev s i =
     (case match_here U ic p prev s i None None of
        None \<Rightarrow> None
      | Some (e, g) \<Rightarrow> Some \<lparr>m_start = i, m_end = e, m_group1 = g\<rparr>)"

text \<open>
  \<open>re.search\<close> tries the start positions from left to right, the end of the text
  included, and returns the match at the first position that has one.
\<close>

primrec scan ::
  "unicode_tables \<Rightarrow> bool \<Rightarrow> node list \<Rightarrow> nat option \<Rightarrow> ustring \<Rightarrow> nat \<Rightarrow> rmatch option" where
  "scan U ic p prev [] i = try_at U ic p prev [] i"
| "scan U ic p prev (c # cs) i =
     (case try_at U ic p prev (c # cs) i of
        Some m \<Rightarrow> Some m
      | None \<Rightarrow> scan U ic p (Some c) cs (Suc i))"

definition re_search :: "unicode_tables \<Rightarrow> bool \<Rightarrow> node list \<Rightarrow> ustring \<Rightarrow> rmatch option" where
  "re_search U ic p s = scan U ic p None s 0"

text \<open>
  A value of a field: a \<open>str\<close> or \<open>None\<close>.  \<open>m.group(1)\<close> is the matched slice,
  and \<open>None\<close> when group 1 took no part in the match.
\<close>

datatype pyvalue = Str ustring | PyNone

definition group1 :: "ustring \<Rightarrow> rmatch \<Rightarrow> pyvalue" where
  "group1 s m = (case m_group1 m of None \<Rightarrow> PyNone | Some (b, e) \<Rightarrow> Str (take (e - b) (drop b s)))"

section \<open>\<open>extract_invoice_data\<close>\<close>

text \<open>\<open>([A-Z]{3,5}\d{6,8})\<close>, compiled with \<open>re.IGNORECASE\<close>.\<close>

definition invoice_number_re :: "node list" where
  "invoice_number_re = [GroupOpen, Rep [Range 65 90] 3 (Some 5), Rep [Digit] 6 (Some 8), GroupClose]"

text \<open>\<open>\<euro>\s?([\d,]+\.\d{2})\<close>, case sensitive.\<close>

definition amount_re :: "node list" where
  "amount_re =
     [One (Chr euro), Rep [Space] 0 (Some 1), GroupOpen, Rep [Digit, Chr 44] 1 None,
      One (Chr 46), Rep [Digit] 2 (Some 2), GroupClose]"

text \<open>\<open>Due Date[:\s]*(\d{2}/\d{2}/\d{4})\<close>, compiled with \<open>re.IGNORECASE\<close>.\<close>

definition due_date_re :: "node list" where
  "due_date_re =
     [One (Chr 68), One (Chr 117), One (Chr 101), One (Chr 32),
      One (Chr 68), One (Chr 97), One (Chr 116), One (Chr 101),
      Rep [Chr 58, Space] 0 None, GroupOpen,
      Rep [Digit] 2 (Some 2), One (Chr 47), Rep [Digit] 2 (Some 2), One (Chr 47),
      Rep [Digit] 4 (Some 4), GroupClose]"

text \<open>\<open>\bPaid\b\<close>, compiled with \<open>re.IGNORECASE\<close>.\<close>

definition paid_re :: "node list" where
  "paid_re = [Boundary, One (Chr 80), One (Chr 97), One (Chr 105), One (Chr 100), Boundary]"

datatype error = AttributeError | PyMongoError

record invoice_details =
  invoice_number :: pyvalue
  amount :: pyvalue
  due_date :: pyvalue
  payment_status :: pyvalue

definition Unknown :: pyvalue where
  "Unknown = Str (ustr ''Unknown'')"

text \<open>
  The expression \<open>re.search(p, text).group(1) if re.search(p, text) else "Unknown"\<close>,
  which the function writes out for three of the fields.  It searches twice;
  \<open>.group\<close> on the \<open>None\<close> of a failed search raises \<open>AttributeError\<close>.
\<close>

definition group1_or_unknown ::
  "unicode_tables \<Rightarrow> bool \<Rightarrow> node list \<Rightarrow> ustring \<Rightarrow> error + pyvalue" where
  "group1_or_unknown U ic p s =
     (if re_search U ic p s \<noteq> None
      then (case re_search U ic p s of None \<Rightarrow> Inl AttributeError | Some m \<Rightarrow> Inr (group1 s m))
      else Inr Unknown)"

definition extract_invoice_data :: "unicode_tables \<Rightarrow> ustring \<Rightarrow> error + invoice_details" where
  "extract_invoice_data U s =
     (case group1_or_unknown U True invoice_number_re s of
        Inl e \<Rightarrow> Inl e
      | Inr n \<Rightarrow>
     (case group1_or_unknown U False amount_re s of
        Inl e \<Rightarrow> Inl e
      | Inr a \<Rightarrow>
     (case group1_or_unknown U True due_date_re s of
        Inl e \<Rightarrow> Inl e
      | Inr d \<Rightarrow>
          Inr \<lparr>invoice_number = n, amount = a, due_date = d,
               payment_status =
                 (if re_search U True paid_re s \<noteq> None
                  then Str (ustr ''Paid'') else Str (ustr ''Unpaid''))\<rparr>)))"

section \<open>\<open>store_in_mongo\<close>\<close>

text \<open>
  The dictionary that \<open>main\<close> hands to \<open>store_in_mongo\<close>: the metadata of
  \<open>process_email\<close>, updated with the fields of \<open>extract_invoice_data\<close>.
\<close>

record extracted_data = invoice_details +
  email_uid :: ustring
  sender :: ustring
  subject :: ustring
  attachments :: "ustring list"

text \<open>
  A query of \<open>find_one\<close> is a dictionary from keys to values; a document matches
  when it has each of these values under the key.
\<close>

datatype key = Email_uid | Sender | Invoice_number | Amount

fun field :: "key \<Rightarrow> extracted_data \<Rightarrow> pyvalue" where
  "field Email_uid d = Str (email_uid d)"
| "field Sender d = Str (sender d)"
| "field Invoice_number d = invoice_number d"
| "field Amount d = amount d"

definition matches :: "(key \<times> pyvalue) list \<Rightarrow> extracted_data \<Rightarrow> bool" where
  "matches q d = list_all (\<lambda>(k, v). field k d = v) q"

text \<open>
  The database is the world the function acts on.  A collection object is the name of
  its collection.  Every call of the driver is logged in \<open>calls\<close>; \<open>faults\<close>
  says which of the coming calls fail: the next call of the driver raises the error at the
  head of \<open>faults\<close>, if there is one, and succeeds when the head is \<open>None\<close> or
  the list is empty.  \<open>stdout\<close> holds the lines printed.
\<close>

datatype driver_call = FindOne string "(key \<times> pyvalue) list" | InsertOne string extracted_data

record world =
  collections :: "string \<Rightarrow> extracted_data list"
  faults :: "error option list"
  calls :: "driver_call list"
  stdout :: "string list"

definition next_fault :: "world \<Rightarrow> error option" where
  "next_fault w = (case faults w of [] \<Rightarrow> None | f # fs \<Rightarrow> f)"

definition called :: "driver_call \<Rightarrow> world \<Rightarrow> world" where
  "called c w = w\<lparr>faults := tl (faults w), calls := calls w @ [c]\<rparr>"

definition find_one ::
  "string \<Rightarrow> (key \<times> pyvalue) list \<Rightarrow> world \<Rightarrow> (error + extracted_data option) \<times> world" where
  "find_one h q w =
     (case next_fault w of
        Some e \<Rightarrow> (Inl e, called (FindOne h q) w)
      | None \<Rightarrow> (Inr (find (matches q) (collections w h)), called (FindOne h q) w))"

definition insert_one :: "string \<Rightarrow> extracted_data \<Rightarrow> world \<Rightarrow> (error + unit) \<times> world" where
  "insert_one h d w =
     (case next_fault w of
        Some e \<Rightarrow> (Inl e, called (InsertOne h d) w)
      | None \<Rightarrow>
          (Inr (), (called (InsertOne h d) w)
                     \<lparr>collections := (collections w)(h := collections w h @ [d])\<rparr>))"

definition print :: "string \<Rightarrow> world \<Rightarrow> world" where
  "print line w = w\<lparr>stdout := stdout w @ [line]\<rparr>"

text \<open>
  \<open>store_in_mongo collection recurring_collection extracted_data\<close>.  An exception
  of the driver is not caught: it ends the function with the world as it is then.
\<close>

definition store_in_mongo ::
  "string \<Rightarrow> string \<Rightarrow> extracted_data \<Rightarrow> world \<Rightarrow> (error + unit) \<times> world" where
  "store_in_mongo collection recurring_collection d w =
     (case find_one collection
             [(Email_uid, Str (email_uid d)), (Sender, Str (sender d)),
              (Invoice_number, invoice_number d)] w of
        (Inl e, w1) \<Rightarrow> (Inl e, w1)
      | (Inr found, w1) \<Rightarrow>
          if found \<noteq> None
          then (Inr (), print ''Duplicate invoice detected. Skipping storage.'' w1)
          else
            (case find_one collection [(Sender, Str (sender d)), (Amount, amount d)] w1 of
               (Inl e, w2) \<Rightarrow> (Inl e, w2)
             | (Inr found2, w2) \<Rightarrow>
                 if found2 \<noteq> None \<and> due_date d \<noteq> Unknown
                 then (case insert_one recurring_collection d w2 of
                         (Inl e, w3) \<Rightarrow> (Inl e, w3)
                       | (Inr u, w3) \<Rightarrow> (Inr (), print ''Stored in RecurringInvoices.'' w3))
                 else (case insert_one collection d w2 of
                         (Inl e, w3) \<Rightarrow> (Inl e, w3)
                       | (Inr u, w3) \<Rightarrow> (Inr (), print ''Stored in Invoices.'' w3))))"

text \<open>
  The function returns nothing.  What it decided about the record is the line it
  prints: the disposition of a call that returns is read from the last line of
  \<open>stdout\<close>; a call that raises has none.
\<close>

datatype disposition = Duplicate | Recurring | New

definition reported :: "string \<Rightarrow> disposition option" where
  "reported line =
     (if line = ''Duplicate invoice detected. Skipping storage.'' then Some Duplicate
      else if line = ''Stored in RecurringInvoices.'' then Some Recurring
      else if line = ''Stored in Invoices.'' then Some New
      else None)"

definition classified ::
  "string \<Rightarrow> string \<Rightarrow> extracted_data \<Rightarrow> world \<Rightarrow> error + disposition option" where
  "classified collection recurring_collection d w =
     (case store_in_mongo collection recurring_collection d w of
        (Inl e, w') \<Rightarrow> Inl e
      | (Inr u, w') \<Rightarrow>
          Inr (if length (stdout w') = Suc (length (stdout w)) then reported (last (stdout w'))
               else None))"

text \<open>The calls of the driver that a run added to the log, and the insertions among them.\<close>

definition new_calls :: "world \<Rightarrow> world \<Rightarrow> driver_call list" where
  "new_calls w w' = drop (length (calls w)) (calls w')"

fun is_insert :: "driver_call \<Rightarrow> bool" where
  "is_insert (InsertOne h d) = True"
| "is_insert (FindOne h q) = False"

fun is_lookup :: "driver_call \<Rightarrow> bool" where
  "is_lookup (FindOne h q) = True"
| "is_lookup (InsertOne h d) = False"

text \<open>The keys by which the function compares a candidate with a stored record.\<close>

definition same_identity :: "extracted_data \<Rightarrow> extracted_data \<Rightarrow> bool" where
  "same_identity d x =
     (email_uid x = email_uid d \<and> sender x = sender d \<and> invoice_number x = invoice_number d)"

definition same_sender_amount :: "extracted_data \<Rightarrow> extracted_data \<Rightarrow> bool" where
  "same_sender_amount d x = (sender x = sender d \<and> amount x = amount d)"

section \<open>Auxiliary notions for the properties\<close>

text \<open>
  \<open>healthy n w\<close>: none of the next \<open>n\<close> calls of the driver fails.  A stored
  record matches a candidate by identity, or by sender and amount, when some record of the
  collection does.
\<close>

definition healthy :: "nat \<Rightarrow> world \<Rightarrow> bool" where
  "healthy n w = list_all (\<lambda>f. f = None) (take n (faults w))"

definition identity_match :: "string \<Rightarrow> extracted_data \<Rightarrow> world \<Rightarrow> bool" where
  "identity_match collection d w = list_ex (same_identity d) (collections w collection)"

definition sender_amount_match :: "string \<Rightarrow> extracted_data \<Rightarrow> world \<Rightarrow> bool" where
  "sender_amount_match collection d w = list_ex (same_sender_amount d) (collections w collection)"

text \<open>A record and a world for the examples.\<close>

definition example_record :: extracted_data where
  "example_record =
     \<lparr>invoice_number = Str (ustr ''ABC123456''), amount = Str (ustr ''150.00''),
      due_date = Str (ustr ''01/05/2025''), payment_status = Str (ustr ''Unpaid''),
      email_uid = ustr ''7'', sender = ustr ''billing@example.com'',
      subject = ustr ''Invoice'', attachments = [ustr ''Invoices/a.pdf'']\<rparr>"

definition example_world :: "extracted_data list \<Rightarrow> error option list \<Rightarrow> world" where
  "example_world stored fs =
     \<lparr>collections = (\<lambda>h. if h = ''Invoices'' then stored else []), faults = fs,
      calls = [], stdout = []\<rparr>"

text \<open>
  The worlds in which a call of \<open>store_in_mongo\<close> can end: after a duplicate, after an
  insertion into the collection \<open>target\<close>, and after the driver raised in the
  \<open>n\<close>-th call.
\<close>

definition kept_out :: "string \<Rightarrow> extracted_data \<Rightarrow> world \<Rightarrow> world" where
  "kept_out collection d w =
     w\<lparr>faults := tl (faults w),
       calls := calls w @ [FindOne collection [(Email_uid, Str (email_uid d)),
                 (Sender, Str (sender d)), (Invoice_number, invoice_number d)]],
       stdout := stdout w @ [''Duplicate invoice detected. Skipping storage.'']\<rparr>"

definition stored_in :: "string \<Rightarrow> string \<Rightarrow> string \<Rightarrow> extracted_data \<Rightarrow> world \<Rightarrow> world" where
  "stored_in collection target line d w =
     w\<lparr>faults := tl (tl (tl (faults w))),
       calls := calls w @
         [FindOne collection [(Email_uid, Str (email_uid d)), (Sender, Str (sender d)),
            (Invoice_number, invoice_number d)],
          FindOne collection [(Sender, Str (sender d)), (Amount, amount d)],
          InsertOne target d],
       collections := (collections w)(target := collections w target @ [d]),
       stdout := stdout w @ [line]\<rparr>"

definition after_calls :: "nat \<Rightarrow> driver_call list \<Rightarrow> world \<Rightarrow> world" where
  "after_calls n cs w = w\<lparr>faults := drop n (faults w), calls := calls w @ cs\<rparr>"


definition last_of :: "nat option \<Rightarrow> ustring \<Rightarrow> nat option" where
  "last_of prev xs = (if xs = [] then prev else Some (last xs))"

text \<open>
  The word \<open>Paid\<close> in any combination of cases: \<open>P\<close> or \<open>p\<close>, \<open>A\<close> or
  \<open>a\<close>, \<open>I\<close> or \<open>i\<close>, \<open>D\<close> or \<open>d\<close>.  It stands alone in a text
  when the character before it, if there is one, and the character after it, if there is
  one, are no word characters.
\<close>

definition paid_word :: "ustring \<Rightarrow> bool" where
  "paid_word w =
     (\<exists>p a i d. w = [p, a, i, d] \<and> (p = 80 \<or> p = 112) \<and> (a = 65 \<or> a = 97) \<and>
        (i = 73 \<or> i = 105) \<and> (d = 68 \<or> d = 100))"

definition standalone_paid :: "unicode_tables \<Rightarrow> ustring \<Rightarrow> bool" where
  "standalone_paid U s =
     (\<exists>xs w ys. s = xs @ w @ ys \<and> paid_word w \<and>
        (xs = [] \<or> \<not> is_word U (last xs)) \<and> (ys = [] \<or> \<not> is_word U (hd ys)))"

text \<open>
  The words that \<open>re.IGNORECASE\<close> identifies with \<open>Paid\<close>: those above, and those
  with the dotted capital U+0130 or the dotless small U+0131 in the place of the \<open>i\<close>.
\<close>

definition paid_variant :: "ustring \<Rightarrow> bool" where
  "paid_variant w =
     (\<exists>p a i d. w = [p, a, i, d] \<and> (p = 80 \<or> p = 112) \<and> (a = 65 \<or> a = 97) \<and>
        (i = 73 \<or> i = 105 \<or> i = 304 \<or> i = 305) \<and> (d = 68 \<or> d = 100))"

definition standalone_variant :: "unicode_tables \<Rightarrow> ustring \<Rightarrow> bool" where
  "standalone_variant U s =
     (\<exists>xs w ys. s = xs @ w @ ys \<and> paid_variant w \<and>
        (xs = [] \<or> \<not> is_word U (last xs)) \<and> (ys = [] \<or> \<not> is_word U (hd ys)))"





section \<open>Properties of \<open>store_in_mongo\<close>\<close>

lemma find_identity:
  "find (matches [(Email_uid, Str (email_uid d)), (Sender, Str (sender d)),
                  (Invoice_number, invoice_number d)]) xs \<noteq> None \<longleftrightarrow> list_ex (same_identity d) xs"
  by (induction xs) (auto simp: matches_def same_identity_def)

lemma find_sender_amount:
  "find (matches [(Sender, Str (sender d)), (Amount, amount d)]) xs \<noteq> None \<longleftrightarrow>
     list_ex (same_sender_amount d) xs"
  by (induction xs) (auto simp: matches_def same_sender_amount_def)

lemma healthy_Suc:
  "healthy (Suc n) w \<longleftrightarrow> next_fault w = None \<and> healthy n (w\<lparr>faults := tl (faults w)\<rparr>)"
  by (cases "faults w") (auto simp: healthy_def next_fault_def)

lemma healthy_upd [simp]:
  "healthy n (w\<lparr>calls := cs\<rparr>) = healthy n w"
  "healthy n (w\<lparr>stdout := out\<rparr>) = healthy n w"
  "healthy n (w\<lparr>collections := co\<rparr>) = healthy n w"
  by (simp_all add: healthy_def)

lemma next_fault_upd [simp]:
  "next_fault (w\<lparr>calls := cs\<rparr>) = next_fault w"
  "next_fault (w\<lparr>stdout := out\<rparr>) = next_fault w"
  "next_fault (w\<lparr>collections := co\<rparr>) = next_fault w"
  by (simp_all add: next_fault_def)

lemma store_duplicate:
  assumes "next_fault w = None" "identity_match c d w"
  shows "store_in_mongo c r d w = (Inr (), kept_out c d w)"
  using assms find_identity[of d "collections w c"]
  by (simp add: store_in_mongo_def find_one_def called_def print_def kept_out_def
      identity_match_def)

lemma store_recurring:
  assumes "healthy 3 w" "\<not> identity_match c d w" "sender_amount_match c d w"
    "due_date d \<noteq> Unknown"
  shows "store_in_mongo c r d w = (Inr (), stored_in c r ''Stored in RecurringInvoices.'' d w)"
proof -
  have h: "next_fault w = None" "next_fault (w\<lparr>faults := tl (faults w)\<rparr>) = None"
    "next_fault (w\<lparr>faults := tl (tl (faults w))\<rparr>) = None"
    using assms(1) by (simp_all add: numeral_3_eq_3 healthy_Suc)
  show ?thesis
    using assms(2-4) h find_identity[of d "collections w c"]
      find_sender_amount[of d "collections w c"]
    by (simp add: store_in_mongo_def find_one_def insert_one_def called_def print_def
        stored_in_def identity_match_def sender_amount_match_def)
qed

lemma store_new:
  assumes "healthy 3 w" "\<not> identity_match c d w"
    "\<not> (sender_amount_match c d w \<and> due_date d \<noteq> Unknown)"
  shows "store_in_mongo c r d w = (Inr (), stored_in c c ''Stored in Invoices.'' d w)"
proof -
  have h: "next_fault w = None" "next_fault (w\<lparr>faults := tl (faults w)\<rparr>) = None"
    "next_fault (w\<lparr>faults := tl (tl (faults w))\<rparr>) = None"
    using assms(1) by (simp_all add: numeral_3_eq_3 healthy_Suc)
  show ?thesis
    using assms(2-3) h find_identity[of d "collections w c"]
      find_sender_amount[of d "collections w c"]
    by (auto simp add: store_in_mongo_def find_one_def insert_one_def called_def print_def
        stored_in_def identity_match_def sender_amount_match_def)
qed

lemma healthy_3:
  "healthy 3 w \<longleftrightarrow> next_fault w = None \<and> next_fault (w\<lparr>faults := tl (faults w)\<rparr>) = None \<and>
     next_fault (w\<lparr>faults := tl (tl (faults w))\<rparr>) = None"
  by (simp add: numeral_3_eq_3 healthy_Suc) (simp add: healthy_def)

lemma store_fault_1:
  assumes "next_fault w = Some e"
  shows "store_in_mongo c r d w =
     (Inl e, after_calls 1 [FindOne c [(Email_uid, Str (email_uid d)), (Sender, Str (sender d)),
        (Invoice_number, invoice_number d)]] w)"
  using assms
  by (simp add: store_in_mongo_def find_one_def called_def after_calls_def drop_Suc)

lemma store_fault_2:
  assumes "next_fault w = None" "\<not> identity_match c d w"
    "next_fault (w\<lparr>faults := tl (faults w)\<rparr>) = Some e"
  shows "store_in_mongo c r d w =
     (Inl e, after_calls 2 [FindOne c [(Email_uid, Str (email_uid d)), (Sender, Str (sender d)),
        (Invoice_number, invoice_number d)],
        FindOne c [(Sender, Str (sender d)), (Amount, amount d)]] w)"
  using assms find_identity[of d "collections w c"]
  by (simp add: store_in_mongo_def find_one_def called_def after_calls_def drop_Suc
      numeral_2_eq_2 identity_match_def)

lemma store_fault_3:
  assumes "next_fault w = None" "\<not> identity_match c d w"
    "next_fault (w\<lparr>faults := tl (faults w)\<rparr>) = None"
    "next_fault (w\<lparr>faults := tl (tl (faults w))\<rparr>) = Some e"
  shows "store_in_mongo c r d w =
     (Inl e, after_calls 3 [FindOne c [(Email_uid, Str (email_uid d)), (Sender, Str (sender d)),
        (Invoice_number, invoice_number d)],
        FindOne c [(Sender, Str (sender d)), (Amount, amount d)],
        InsertOne (if sender_amount_match c d w \<and> due_date d \<noteq> Unknown then r else c) d] w)"
  using assms find_identity[of d "collections w c"] find_sender_amount[of d "collections w c"]
  by (auto simp add: sender_amount_match_def store_in_mongo_def find_one_def insert_one_def called_def after_calls_def
      drop_Suc numeral_3_eq_3 identity_match_def)

lemma store_returns:
  assumes "store_in_mongo c r d w = (Inr u, w')"
  shows "(identity_match c d w \<and> w' = kept_out c d w) \<or>
     (\<not> identity_match c d w \<and> sender_amount_match c d w \<and> due_date d \<noteq> Unknown \<and>
        w' = stored_in c r ''Stored in RecurringInvoices.'' d w) \<or>
     (\<not> identity_match c d w \<and> \<not> (sender_amount_match c d w \<and> due_date d \<noteq> Unknown) \<and>
        w' = stored_in c c ''Stored in Invoices.'' d w)"
proof (cases "next_fault w")
  case (Some e)
  from store_fault_1[OF this, of c r d] assms show ?thesis by simp
next
  case None
  show ?thesis
  proof (cases "identity_match c d w")
    case True
    from store_duplicate[OF None True, of r] assms True show ?thesis by simp
  next
    case False
    show ?thesis
    proof (cases "next_fault (w\<lparr>faults := tl (faults w)\<rparr>)")
      case (Some e)
      from store_fault_2[OF None False this, of r] assms show ?thesis by simp
    next
      case n2: None
      show ?thesis
      proof (cases "next_fault (w\<lparr>faults := tl (tl (faults w))\<rparr>)")
        case (Some e)
        from store_fault_3[OF None False n2 this, of r] assms show ?thesis by auto
      next
        case n3: None
        have h: "healthy 3 w" unfolding healthy_3 using None n2 n3 by simp
        show ?thesis
        proof (cases "sender_amount_match c d w \<and> due_date d \<noteq> Unknown")
          case True
          with store_recurring[OF h False, of r] assms False show ?thesis by simp
        next
          case F: False
          from store_new[OF h False F, of r] assms False F show ?thesis by simp
        qed
      qed
    qed
  qed
qed

lemma classified_kept_out:
  "store_in_mongo c r d w = (Inr u, kept_out c d w) \<Longrightarrow>
     classified c r d w = Inr (Some Duplicate)"
  by (simp add: classified_def kept_out_def reported_def)

lemma classified_stored_in:
  "store_in_mongo c r d w = (Inr u, stored_in c h line d w) \<Longrightarrow>
     classified c r d w = Inr (reported line)"
  by (simp add: classified_def stored_in_def)

lemma new_calls_kept_out:
  "new_calls w (kept_out c d w) =
     [FindOne c [(Email_uid, Str (email_uid d)), (Sender, Str (sender d)),
        (Invoice_number, invoice_number d)]]"
  by (simp add: new_calls_def kept_out_def)

lemma new_calls_stored_in:
  "new_calls w (stored_in c h line d w) =
     [FindOne c [(Email_uid, Str (email_uid d)), (Sender, Str (sender d)),
        (Invoice_number, invoice_number d)],
      FindOne c [(Sender, Str (sender d)), (Amount, amount d)], InsertOne h d]"
  by (simp add: new_calls_def stored_in_def)

lemma new_calls_after_calls: "new_calls w (after_calls n cs w) = cs"
  by (simp add: new_calls_def after_calls_def)

lemma collections_kept_out: "collections (kept_out c d w) = collections w"
  by (simp add: kept_out_def)

lemma collections_stored_in:
  "collections (stored_in c h line d w) = (collections w)(h := collections w h @ [d])"
  by (simp add: stored_in_def)

lemma collections_after_calls: "collections (after_calls n cs w) = collections w"
  by (simp add: after_calls_def)

lemma stdout_after_calls: "stdout (after_calls n cs w) = stdout w"
  by (simp add: after_calls_def)

lemma classified_raised:
  "store_in_mongo c r d w = (Inl e, w') \<Longrightarrow> classified c r d w = Inl e"
  by (simp add: classified_def)

lemma example_due_date: "due_date example_record \<noteq> Unknown"
  by (simp add: example_record_def Unknown_def ustr_def)

lemma example_world_simps:
  "collections (example_world stored fs) ''Invoices'' = stored"
  "collections (example_world stored fs) ''RecurringInvoices'' = []"
  "faults (example_world stored fs) = fs"
  "calls (example_world stored fs) = []"
  "stdout (example_world stored fs) = []"
  by (simp_all add: example_world_def)

text \<open>
  Claim C1.  The duplicate check comes first: when the primary collection holds a record
  with the candidate's \<open>email_uid\<close>, \<open>sender\<close> and \<open>invoice_number\<close> (and
  the lookup itself succeeds), the call reports a duplicate, leaves every collection as it
  was and makes no insertion, whatever the candidate's amount and due date are.
\<close>

theorem duplicate_takes_precedence:
  assumes "next_fault w = None" and "identity_match c d w"
  shows "classified c r d w = Inr (Some Duplicate) \<and>
         collections (snd (store_in_mongo c r d w)) = collections w \<and>
         filter is_insert (new_calls w (snd (store_in_mongo c r d w))) = []"
  using store_duplicate[OF assms, of r] classified_kept_out[of c r d w "()"]
  by (simp add: collections_kept_out new_calls_kept_out)

text \<open>
  An instance: the stored record is the candidate itself, so that sender and amount match
  too and the due date is resolved.
\<close>

theorem duplicate_takes_precedence_witness:
  "identity_match ''Invoices'' example_record (example_world [example_record] []) \<and>
   sender_amount_match ''Invoices'' example_record (example_world [example_record] []) \<and>
   due_date example_record \<noteq> Unknown \<and>
   classified ''Invoices'' ''RecurringInvoices'' example_record
     (example_world [example_record] []) = Inr (Some Duplicate) \<and>
   collections (snd (store_in_mongo ''Invoices'' ''RecurringInvoices'' example_record
     (example_world [example_record] []))) ''Invoices'' = [example_record]"
proof -
  have 1: "next_fault (example_world [example_record] []) = None"
    by (simp add: next_fault_def example_world_simps)
  have 2: "identity_match ''Invoices'' example_record (example_world [example_record] [])"
    by (simp add: identity_match_def example_world_simps same_identity_def)
  have 3: "sender_amount_match ''Invoices'' example_record (example_world [example_record] [])"
    by (simp add: sender_amount_match_def example_world_simps same_sender_amount_def)
  from duplicate_takes_precedence[OF 1 2, of "''RecurringInvoices''"] 2 3 example_due_date
  show ?thesis by (simp add: example_world_simps)
qed

text \<open>
  Claim C2.  When no call of the driver fails, the record is reported as recurring exactly
  when no stored record has its identity, some stored record of the primary collection has
  its sender and amount, and its due date is not \<open>Unknown\<close>; a record with no
  identity match and an \<open>Unknown\<close> due date is new and is appended to the primary
  collection, also when sender and amount match.
\<close>

theorem recurring_needs_due_date:
  assumes "healthy 3 w"
  shows "(classified c r d w = Inr (Some Recurring) \<longleftrightarrow>
            \<not> identity_match c d w \<and> sender_amount_match c d w \<and> due_date d \<noteq> Unknown) \<and>
         (\<not> identity_match c d w \<and> due_date d = Unknown \<longrightarrow>
            classified c r d w = Inr (Some New) \<and>
            collections (snd (store_in_mongo c r d w)) = (collections w)(c := collections w c @ [d]))"
proof (cases "identity_match c d w")
  case True
  have "next_fault w = None" using assms by (simp add: healthy_3)
  from store_duplicate[OF this True, of r] classified_kept_out[of c r d w "()"] True
  show ?thesis by simp
next
  case False
  show ?thesis
  proof (cases "sender_amount_match c d w \<and> due_date d \<noteq> Unknown")
    case True
    with store_recurring[OF assms False, of r]
      classified_stored_in[of c r d w "()" r "''Stored in RecurringInvoices.''"] False
    show ?thesis by (simp add: reported_def)
  next
    case F: False
    from store_new[OF assms False F, of r]
      classified_stored_in[of c r d w "()" c "''Stored in Invoices.''"] False F
    show ?thesis by (auto simp add: reported_def collections_stored_in)
  qed
qed

text \<open>
  An instance: a stored record with the same sender and amount from another message; the
  candidate is new without a due date and recurring with one.
\<close>

theorem recurring_needs_due_date_witness:
  "sender_amount_match ''Invoices'' (example_record\<lparr>email_uid := ustr ''8'', due_date := Unknown\<rparr>)
     (example_world [example_record] []) \<and>
   classified ''Invoices'' ''RecurringInvoices''
     (example_record\<lparr>email_uid := ustr ''8'', due_date := Unknown\<rparr>)
     (example_world [example_record] []) = Inr (Some New) \<and>
   classified ''Invoices'' ''RecurringInvoices'' (example_record\<lparr>email_uid := ustr ''8''\<rparr>)
     (example_world [example_record] []) = Inr (Some Recurring)"
proof -
  let ?w = "example_world [example_record] []"
  have h: "healthy 3 ?w" by (simp add: healthy_def example_world_simps)
  have ne: "ustr ''7'' \<noteq> ustr ''8''" by (simp add: ustr_def)
  have 1: "\<not> identity_match ''Invoices'' (example_record\<lparr>email_uid := ustr ''8'', due_date := Unknown\<rparr>) ?w"
    "\<not> identity_match ''Invoices'' (example_record\<lparr>email_uid := ustr ''8''\<rparr>) ?w"
    using ne by (simp_all add: identity_match_def example_world_simps same_identity_def
        example_record_def)
  have 2: "sender_amount_match ''Invoices'' (example_record\<lparr>email_uid := ustr ''8'', due_date := Unknown\<rparr>) ?w"
    "sender_amount_match ''Invoices'' (example_record\<lparr>email_uid := ustr ''8''\<rparr>) ?w"
    by (simp_all add: sender_amount_match_def example_world_simps same_sender_amount_def)
  have 3: "due_date (example_record\<lparr>email_uid := ustr ''8''\<rparr>) \<noteq> Unknown"
    using example_due_date by simp
  from recurring_needs_due_date[OF h, of "''Invoices''" "''RecurringInvoices''"
      "example_record\<lparr>email_uid := ustr ''8'', due_date := Unknown\<rparr>"]
    recurring_needs_due_date[OF h, of "''Invoices''" "''RecurringInvoices''"
      "example_record\<lparr>email_uid := ustr ''8''\<rparr>"] 1 2 3
  show ?thesis by simp
qed

text \<open>
  Claim C7.  A call that returns has reported a duplicate and changed no collection and
  made no insertion, or has made exactly one insertion: of the record into the recurring
  collection, or of the record into the primary collection.
\<close>

theorem one_insertion_or_none:
  assumes "store_in_mongo c r d w = (Inr u, w')"
  shows "(classified c r d w = Inr (Some Duplicate) \<and> collections w' = collections w \<and>
            filter is_insert (new_calls w w') = []) \<or>
         (classified c r d w = Inr (Some Recurring) \<and>
            collections w' = (collections w)(r := collections w r @ [d]) \<and>
            filter is_insert (new_calls w w') = [InsertOne r d]) \<or>
         (classified c r d w = Inr (Some New) \<and>
            collections w' = (collections w)(c := collections w c @ [d]) \<and>
            filter is_insert (new_calls w w') = [InsertOne c d])"
proof -
  from store_returns[OF assms] consider
      "w' = kept_out c d w"
    | "w' = stored_in c r ''Stored in RecurringInvoices.'' d w"
    | "w' = stored_in c c ''Stored in Invoices.'' d w" by blast
  then show ?thesis
  proof cases
    case 1
    with assms classified_kept_out[of c r d w u] show ?thesis
      by (simp add: collections_kept_out new_calls_kept_out)
  next
    case 2
    with assms classified_stored_in[of c r d w u r "''Stored in RecurringInvoices.''"]
    show ?thesis by (simp add: collections_stored_in new_calls_stored_in reported_def)
  next
    case 3
    with assms classified_stored_in[of c r d w u c "''Stored in Invoices.''"]
    show ?thesis by (simp add: collections_stored_in new_calls_stored_in reported_def)
  qed
qed

text \<open>
  An instance: a first record arrives at empty collections; it is new, and after the call
  it is the only record of the primary collection.
\<close>

theorem one_insertion_or_none_witness:
  "classified ''Invoices'' ''RecurringInvoices'' example_record (example_world [] []) =
     Inr (Some New) \<and>
   collections (snd (store_in_mongo ''Invoices'' ''RecurringInvoices'' example_record
     (example_world [] []))) ''Invoices'' = [example_record] \<and>
   filter is_insert (new_calls (example_world [] [])
     (snd (store_in_mongo ''Invoices'' ''RecurringInvoices'' example_record
        (example_world [] [])))) = [InsertOne ''Invoices'' example_record]"
proof -
  let ?w = "example_world [] []"
  let ?r = "store_in_mongo ''Invoices'' ''RecurringInvoices'' example_record ?w"
  have h: "healthy 3 ?w" by (simp add: healthy_def example_world_simps)
  have 1: "\<not> identity_match ''Invoices'' example_record ?w"
    by (simp add: identity_match_def example_world_simps)
  have 2: "\<not> (sender_amount_match ''Invoices'' example_record ?w \<and>
     due_date example_record \<noteq> Unknown)"
    by (simp add: sender_amount_match_def example_world_simps)
  have eq: "?r = (Inr (), snd ?r)"
    using store_new[OF h 1 2, of "''RecurringInvoices''"] by simp
  have new: "classified ''Invoices'' ''RecurringInvoices'' example_record ?w = Inr (Some New)"
    using store_new[OF h 1 2, of "''RecurringInvoices''"]
      classified_stored_in[of "''Invoices''" "''RecurringInvoices''" example_record ?w "()"
        "''Invoices''" "''Stored in Invoices.''"]
    by (simp add: reported_def)
  from one_insertion_or_none[OF eq] new show ?thesis
    by (simp add: example_world_simps)
qed






text \<open>
  Claim C9.  When the first lookup fails, or the first finds no record with the
  candidate's identity and the second fails, the error of the driver leaves the function:
  there is no disposition, nothing is printed, no collection changes and no insertion is
  attempted.
\<close>

theorem lookup_failure_propagates:
  assumes "next_fault w = Some e \<or>
     (next_fault w = None \<and> \<not> identity_match c d w \<and>
      next_fault (w\<lparr>faults := tl (faults w)\<rparr>) = Some e)"
  shows "fst (store_in_mongo c r d w) = Inl e \<and> classified c r d w = Inl e \<and>
     collections (snd (store_in_mongo c r d w)) = collections w \<and>
     stdout (snd (store_in_mongo c r d w)) = stdout w \<and>
     filter is_insert (new_calls w (snd (store_in_mongo c r d w))) = []"
  using assms
proof
  assume "next_fault w = Some e"
  from store_fault_1[OF this, of c r d] show ?thesis
    by (simp add: classified_def collections_after_calls stdout_after_calls
        new_calls_after_calls)
next
  assume "next_fault w = None \<and> \<not> identity_match c d w \<and>
      next_fault (w\<lparr>faults := tl (faults w)\<rparr>) = Some e"
  then have "next_fault w = None" "\<not> identity_match c d w"
    "next_fault (w\<lparr>faults := tl (faults w)\<rparr>) = Some e" by simp_all
  from store_fault_2[OF this, of r] show ?thesis
    by (simp add: classified_def collections_after_calls stdout_after_calls
        new_calls_after_calls)
qed

text \<open>An instance for each of the two lookups, on empty collections.\<close>

theorem lookup_failure_propagates_witness:
  "classified ''Invoices'' ''RecurringInvoices'' example_record
     (example_world [] [Some PyMongoError]) = Inl PyMongoError \<and>
   classified ''Invoices'' ''RecurringInvoices'' example_record
     (example_world [] [None, Some PyMongoError]) = Inl PyMongoError \<and>
   collections (snd (store_in_mongo ''Invoices'' ''RecurringInvoices'' example_record
     (example_world [] [None, Some PyMongoError]))) ''Invoices'' = []"
proof -
  have 1: "next_fault (example_world [] [Some PyMongoError]) = Some PyMongoError"
    by (simp add: next_fault_def example_world_simps)
  have 2: "next_fault (example_world [] [None, Some PyMongoError]) = None \<and>
     \<not> identity_match ''Invoices'' example_record (example_world [] [None, Some PyMongoError]) \<and>
     next_fault ((example_world [] [None, Some PyMongoError])
       \<lparr>faults := tl (faults (example_world [] [None, Some PyMongoError]))\<rparr>) = Some PyMongoError"
    by (simp add: next_fault_def example_world_simps identity_match_def)
  from lookup_failure_propagates[OF disjI1, OF 1, of "''Invoices''" "''RecurringInvoices''" example_record]
    lookup_failure_propagates[OF disjI2, OF 2, of "''RecurringInvoices''"]
  show ?thesis by (simp add: example_world_simps)
qed

section \<open>Properties of the matcher and of \<open>extract_invoice_data\<close>\<close>

lemma rep_greedy_full:
  "\<not> below k hi \<Longrightarrow> lo \<le> k \<Longrightarrow> rep_greedy ok lo hi cont k prev s i = cont prev s i"
  by (cases s) simp_all

lemma rep_greedy_one:
  "rep_greedy ok (Suc 0) (Some (Suc 0)) cont 0 prev s i =
     (case s of [] \<Rightarrow> None | c # cs \<Rightarrow> if ok c then cont (Some c) cs (Suc i) else None)"
proof (cases s)
  case Nil
  then show ?thesis by simp
next
  case (Cons c cs)
  have "rep_greedy ok (Suc 0) (Some (Suc 0)) cont (Suc 0) (Some c) cs (Suc i) = cont (Some c) cs (Suc i)"
    by (rule rep_greedy_full) (simp_all add: below_def)
  then show ?thesis using Cons by (simp add: below_def split: option.splits)
qed

lemma rep_greedy_none:
  "k < lo \<Longrightarrow> s = [] \<or> \<not> ok (hd s) \<Longrightarrow> rep_greedy ok lo hi cont k prev s i = None"
  by (cases s) auto





lemma last_of_Cons: "last_of prev (c # xs) = last_of (Some c) xs"
  by (simp add: last_of_def)

lemma last_of_Nil: "last_of prev [] = prev"
  by (simp add: last_of_def)

lemma scan_None_iff:
  "scan U ic p prev s i = None \<longleftrightarrow>
     (\<forall>xs ys. s = xs @ ys \<longrightarrow> try_at U ic p (last_of prev xs) ys (i + length xs) = None)"
proof (induction s arbitrary: prev i)
  case Nil
  then show ?case by (simp add: last_of_def)
next
  case (Cons c cs)
  have "(\<forall>xs ys. c # cs = xs @ ys \<longrightarrow> try_at U ic p (last_of prev xs) ys (i + length xs) = None)
        \<longleftrightarrow> try_at U ic p prev (c # cs) i = None \<and>
            (\<forall>xs ys. cs = xs @ ys \<longrightarrow> try_at U ic p (last_of (Some c) xs) ys (Suc i + length xs) = None)"
    (is "?A \<longleftrightarrow> ?B \<and> ?C")
  proof (intro iffI conjI)
    assume a: ?A
    from a[rule_format, of "[]" "c # cs"] show ?B by (simp add: last_of_Nil)
    show ?C
    proof (intro allI impI)
      fix xs ys assume "cs = xs @ ys"
      with a[rule_format, of "c # xs" ys] show "try_at U ic p (last_of (Some c) xs) ys (Suc i + length xs) = None"
        by (simp add: last_of_Cons)
    qed
  next
    assume bc: "?B \<and> ?C"
    show ?A
    proof (intro allI impI)
      fix xs ys assume e: "c # cs = xs @ ys"
      show "try_at U ic p (last_of prev xs) ys (i + length xs) = None"
      proof (cases xs)
        case Nil
        with e bc show ?thesis by (simp add: last_of_Nil)
      next
        case (Cons x xs')
        with e have "x = c" "cs = xs' @ ys" by simp_all
        with bc Cons show ?thesis by (simp add: last_of_Cons)
      qed
    qed
  qed
  with Cons.IH[of "Some c" "Suc i"] show ?case
    by (simp split: option.splits)
qed




lemma match_one:
  "match_here U ic (Rep [a] (Suc 0) (Some (Suc 0)) # ns) prev s i gs g =
     (case s of [] \<Rightarrow> None
      | c # cs \<Rightarrow> if atom_ok U ic a c then match_here U ic ns (Some c) cs (Suc i) gs g else None)"
proof -
  have "match_here U ic (Rep [a] (Suc 0) (Some (Suc 0)) # ns) prev s i gs g =
        rep_greedy (set_ok U ic [a]) (Suc 0) (Some (Suc 0))
          (\<lambda>prev' s' i'. match_here U ic ns prev' s' i' gs g) 0 prev s i"
    by simp
  also have "\<dots> = (case s of [] \<Rightarrow> None
      | c # cs \<Rightarrow> if set_ok U ic [a] c then match_here U ic ns (Some c) cs (Suc i) gs g else None)"
    by (rule rep_greedy_one)
  also have "\<dots> = (case s of [] \<Rightarrow> None
      | c # cs \<Rightarrow> if atom_ok U ic a c then match_here U ic ns (Some c) cs (Suc i) gs g else None)"
    by (cases s) (simp_all add: set_ok_def)
  finally show ?thesis .
qed

lemma match_one_iff:
  "match_here U ic (Rep [a] (Suc 0) (Some (Suc 0)) # ns) prev s i gs g = Some r \<longleftrightarrow>
     (\<exists>c cs. s = c # cs \<and> atom_ok U ic a c \<and> match_here U ic ns (Some c) cs (Suc i) gs g = Some r)"
  unfolding match_one by (cases s) simp_all

lemma match_boundary_iff:
  "match_here U ic (Boundary # ns) prev s i gs g = Some r \<longleftrightarrow>
     at_boundary U prev s \<and> match_here U ic ns prev s i gs g = Some r"
  by simp

lemma match_nil_iff: "match_here U ic [] prev s i gs g = Some r \<longleftrightarrow> r = (i, g)"
  by auto

lemma match_open:
  "match_here U ic (GroupOpen # ns) prev s i gs g = match_here U ic ns prev s i (Some i) g"
  by simp


lemma match_rep_none:
  "0 < lo \<Longrightarrow> s = [] \<or> \<not> set_ok U ic as (hd s) \<Longrightarrow>
   match_here U ic (Rep as lo hi # ns) prev s i gs g = None"
  by (simp add: rep_greedy_none)

lemma variants_paid:
  "c \<in> set (ignorecase_variants 80) \<longleftrightarrow> c = 80 \<or> c = 112"
  "c \<in> set (ignorecase_variants 97) \<longleftrightarrow> c = 65 \<or> c = 97"
  "c \<in> set (ignorecase_variants 105) \<longleftrightarrow> c = 73 \<or> c = 105 \<or> c = 304 \<or> c = 305"
  "c \<in> set (ignorecase_variants 100) \<longleftrightarrow> c = 68 \<or> c = 100"
  by (auto simp: ignorecase_variants_def Let_def)

lemma paid_variant_iff:
  "paid_variant w \<longleftrightarrow>
     (\<exists>p a j d. w = [p, a, j, d] \<and> p \<in> set (ignorecase_variants 80) \<and>
        a \<in> set (ignorecase_variants 97) \<and> j \<in> set (ignorecase_variants 105) \<and>
        d \<in> set (ignorecase_variants 100))"
  unfolding paid_variant_def variants_paid ..

lemma paid_first_last_word:
  "p \<in> set (ignorecase_variants 80) \<Longrightarrow> is_word U p"
  "d \<in> set (ignorecase_variants 100) \<Longrightarrow> is_word U d"
  by (auto simp: variants_paid is_word_def)

lemma paid_match:
  "match_here U True paid_re prev s i None None = Some r \<longleftrightarrow>
     at_boundary U prev s \<and>
     (\<exists>p a j d ys. s = p # a # j # d # ys \<and> p \<in> set (ignorecase_variants 80) \<and>
        a \<in> set (ignorecase_variants 97) \<and> j \<in> set (ignorecase_variants 105) \<and>
        d \<in> set (ignorecase_variants 100) \<and>
        at_boundary U (Some d) ys \<and> r = (Suc (Suc (Suc (Suc i))), None))"
proof -
  have "match_here U True paid_re prev s i None None = Some r \<longleftrightarrow>
     at_boundary U prev s \<and>
     (\<exists>p cs. s = p # cs \<and> p \<in> set (ignorecase_variants 80) \<and>
       (\<exists>a cs2. cs = a # cs2 \<and> a \<in> set (ignorecase_variants 97) \<and>
         (\<exists>j cs3. cs2 = j # cs3 \<and> j \<in> set (ignorecase_variants 105) \<and>
           (\<exists>d ys. cs3 = d # ys \<and> d \<in> set (ignorecase_variants 100) \<and>
              at_boundary U (Some d) ys \<and> r = (Suc (Suc (Suc (Suc i))), None)))))"
    unfolding paid_re_def One_nat_def
    by (simp only: match_boundary_iff match_one_iff match_nil_iff atom_ok.simps if_True)
  also have "\<dots> \<longleftrightarrow> at_boundary U prev s \<and>
     (\<exists>p a j d ys. s = p # a # j # d # ys \<and> p \<in> set (ignorecase_variants 80) \<and>
        a \<in> set (ignorecase_variants 97) \<and> j \<in> set (ignorecase_variants 105) \<and>
        d \<in> set (ignorecase_variants 100) \<and>
        at_boundary U (Some d) ys \<and> r = (Suc (Suc (Suc (Suc i))), None))"
    by auto
  finally show ?thesis .
qed

lemma paid_here:
  "try_at U True paid_re prev s i \<noteq> None \<longleftrightarrow>
     (\<exists>w ys. s = w @ ys \<and> paid_variant w \<and> \<not> word_before U prev \<and> \<not> word_after U ys)"
  (is "?L \<longleftrightarrow> ?R")
proof
  assume ?L
  then obtain r where "match_here U True paid_re prev s i None None = Some r"
    by (auto simp: try_at_def split: option.splits)
  then obtain p a j d ys where s: "s = p # a # j # d # ys"
    and ok: "p \<in> set (ignorecase_variants 80)" "a \<in> set (ignorecase_variants 97)"
      "j \<in> set (ignorecase_variants 105)" "d \<in> set (ignorecase_variants 100)"
    and b: "at_boundary U prev s" "at_boundary U (Some d) ys"
    unfolding paid_match by blast
  from paid_first_last_word(1)[OF ok(1)] s b(1) have 1: "\<not> word_before U prev"
    by (simp add: at_boundary_def word_after_def)
  from paid_first_last_word(2)[OF ok(4)] b(2) have 2: "\<not> word_after U ys"
    by (simp add: at_boundary_def word_before_def)
  have "paid_variant [p, a, j, d]" unfolding paid_variant_iff using ok by blast
  with s 1 2 show ?R
    by (intro exI[of _ "[p, a, j, d]"] exI[of _ ys]) simp
next
  assume ?R
  then obtain w ys where w: "s = w @ ys" "paid_variant w"
    and b: "\<not> word_before U prev" "\<not> word_after U ys" by blast
  from w(2) obtain p a j d where wd: "w = [p, a, j, d]"
    and ok: "p \<in> set (ignorecase_variants 80)" "a \<in> set (ignorecase_variants 97)"
      "j \<in> set (ignorecase_variants 105)" "d \<in> set (ignorecase_variants 100)"
    unfolding paid_variant_iff by blast
  have s: "s = p # a # j # d # ys" using w(1) wd by simp
  from paid_first_last_word(1)[OF ok(1)] s b(1) have 1: "at_boundary U prev s"
    by (simp add: at_boundary_def word_after_def)
  from paid_first_last_word(2)[OF ok(4)] b(2) have 2: "at_boundary U (Some d) ys"
    by (simp add: at_boundary_def word_before_def)
  have "match_here U True paid_re prev s i None None = Some (Suc (Suc (Suc (Suc i))), None)"
    unfolding paid_match using s ok 1 2 by blast
  then show ?L by (simp add: try_at_def)
qed

lemma word_before_last_of:
  "\<not> word_before U (last_of None xs) \<longleftrightarrow> xs = [] \<or> \<not> is_word U (last xs)"
  by (simp add: word_before_def last_of_def)

lemma word_after_hd: "\<not> word_after U ys \<longleftrightarrow> ys = [] \<or> \<not> is_word U (hd ys)"
  by (cases ys) (simp_all add: word_after_def)

lemma paid_search: "re_search U True paid_re s \<noteq> None \<longleftrightarrow> standalone_variant U s"
proof
  assume "re_search U True paid_re s \<noteq> None"
  then have "\<not> (\<forall>xs ys. s = xs @ ys \<longrightarrow>
      try_at U True paid_re (last_of None xs) ys (0 + length xs) = None)"
    unfolding re_search_def scan_None_iff .
  then obtain xs zs where s: "s = xs @ zs"
    and t: "try_at U True paid_re (last_of None xs) zs (0 + length xs) \<noteq> None" by blast
  from t obtain w ys where w: "zs = w @ ys" "paid_variant w"
    "\<not> word_before U (last_of None xs)" "\<not> word_after U ys"
    unfolding paid_here by blast
  from w(3,4) have "xs = [] \<or> \<not> is_word U (last xs)" "ys = [] \<or> \<not> is_word U (hd ys)"
    by (simp_all only: word_before_last_of word_after_hd)
  with s w(1,2) show "standalone_variant U s"
    unfolding standalone_variant_def by blast
next
  assume "standalone_variant U s"
  then obtain xs w ys where s: "s = xs @ w @ ys" and w: "paid_variant w"
    and b: "xs = [] \<or> \<not> is_word U (last xs)" "ys = [] \<or> \<not> is_word U (hd ys)"
    unfolding standalone_variant_def by blast
  from b have "\<not> word_before U (last_of None xs)" "\<not> word_after U ys"
    by (simp_all only: word_before_last_of word_after_hd)
  with w have "try_at U True paid_re (last_of None xs) (w @ ys) (0 + length xs) \<noteq> None"
    unfolding paid_here by blast
  then have t: "try_at U True paid_re (last_of None xs) (w @ ys) (0 + length xs) \<noteq> None" .
  show "re_search U True paid_re s \<noteq> None"
    unfolding re_search_def scan_None_iff
  proof
    assume a: "\<forall>xs ys. s = xs @ ys \<longrightarrow>
      try_at U True paid_re (last_of None xs) ys (0 + length xs) = None"
    from a[rule_format, of xs "w @ ys"] s
    have "try_at U True paid_re (last_of None xs) (w @ ys) (0 + length xs) = None" by simp
    with t show False by simp
  qed
qed

lemma variants_upper:
  "65 \<le> p \<Longrightarrow> p \<le> 90 \<Longrightarrow> c \<in> set (ignorecase_variants p) \<longleftrightarrow>
     (c = p + 32 \<or> c = p \<or> (p = 73 \<and> (c = 304 \<or> c = 305)) \<or> (p = 83 \<and> c = 383) \<or>
      (p = 75 \<and> c = 8490))"
  by (auto simp: ignorecase_variants_def Let_def)

lemma range_AZ_ic:
  "atom_ok U True (Range 65 90) c =
     ((65 \<le> c \<and> c \<le> 90) \<or> (97 \<le> c \<and> c \<le> 122) \<or> c = 304 \<or> c = 305 \<or> c = 383 \<or> c = 8490)"
  (is "?A = ?R")
proof -
  have "?A = (\<exists>p. 65 \<le> p \<and> p \<le> 90 \<and> c \<in> set (ignorecase_variants p))"
    unfolding atom_ok.simps set_upt Bex_def atLeastLessThan_iff by auto
  also have "\<dots> = (\<exists>p. 65 \<le> p \<and> p \<le> 90 \<and> (c = p + 32 \<or> c = p \<or>
      (p = 73 \<and> (c = 304 \<or> c = 305)) \<or> (p = 83 \<and> c = 383) \<or> (p = 75 \<and> c = 8490)))"
    using variants_upper by blast
  also have "\<dots> = ?R" (is "?L = ?R")
  proof
    assume ?L then show ?R by auto
  next
    assume ?R
    then consider "65 \<le> c \<and> c \<le> 90" | "97 \<le> c \<and> c \<le> 122" | "c = 304 \<or> c = 305"
      | "c = 383" | "c = 8490" by blast
    then show ?L
    proof cases
      case 1 then show ?thesis by (intro exI[of _ c]) simp
    next
      case 2 then show ?thesis by (intro exI[of _ "c - 32"]) auto
    next
      case 3 then show ?thesis by (intro exI[of _ 73]) auto
    next
      case 4 then show ?thesis by (intro exI[of _ 83]) auto
    next
      case 5 then show ?thesis by (intro exI[of _ 75]) auto
    qed
  qed
  finally show ?thesis .
qed

lemmas eval_defs = extract_invoice_data_def group1_or_unknown_def re_search_def try_at_def
  invoice_number_re_def amount_re_def due_date_re_def paid_re_def set_ok_def below_def
  at_boundary_def word_before_def word_after_def is_word_def is_decimal_def is_space_def
  group1_def Unknown_def ustr_def euro_def ignorecase_variants_def Let_def range_AZ_ic

lemma group1_or_unknown_eq:
  "group1_or_unknown U ic p s =
     Inr (case re_search U ic p s of None \<Rightarrow> Unknown | Some m \<Rightarrow> group1 s m)"
  by (cases "re_search U ic p s") (simp_all add: group1_or_unknown_def)

lemma extract_eq:
  "extract_invoice_data U s =
     Inr \<lparr>invoice_number =
            (case re_search U True invoice_number_re s of None \<Rightarrow> Unknown
             | Some m \<Rightarrow> group1 s m),
          amount =
            (case re_search U False amount_re s of None \<Rightarrow> Unknown | Some m \<Rightarrow> group1 s m),
          due_date =
            (case re_search U True due_date_re s of None \<Rightarrow> Unknown | Some m \<Rightarrow> group1 s m),
          payment_status =
            (if re_search U True paid_re s \<noteq> None then Str (ustr ''Paid'')
             else Str (ustr ''Unpaid''))\<rparr>"
  by (simp only: extract_invoice_data_def group1_or_unknown_eq sum.case)

lemma paid_word_variant: "paid_word w \<Longrightarrow> paid_variant w"
  unfolding paid_word_def paid_variant_def by blast

lemma standalone_paid_variant: "standalone_paid U s \<Longrightarrow> standalone_variant U s"
  unfolding standalone_paid_def standalone_variant_def using paid_word_variant by blast

lemma paid_word_length: "paid_word w \<Longrightarrow> length w = 4"
  unfolding paid_word_def by auto

text \<open>
  Claim C5, as the claim states it, fails in its second half: the text \<open>pa\<close>,
  U+0131, \<open>d\<close> (with the dotless small i) holds no combination of cases of the word
  \<open>Paid\<close>, and its payment status is \<open>Paid\<close>, since \<open>re.IGNORECASE\<close> lets the
  \<open>i\<close> of the pattern match U+0131.
\<close>

theorem dotless_i_reads_as_paid:
  "extract_invoice_data ascii_tables [112, 97, 305, 100] =
     Inr \<lparr>invoice_number = Unknown, amount = Unknown, due_date = Unknown,
          payment_status = Str (ustr ''Paid'')\<rparr> \<and>
   \<not> standalone_paid ascii_tables [112, 97, 305, 100]"
proof
  show "extract_invoice_data ascii_tables [112, 97, 305, 100] =
     Inr \<lparr>invoice_number = Unknown, amount = Unknown, due_date = Unknown,
          payment_status = Str (ustr ''Paid'')\<rparr>"
    by (simp add: eval_defs ascii_tables_def del: atom_ok.simps(4))
  show "\<not> standalone_paid ascii_tables [112, 97, 305, 100]"
  proof
    assume "standalone_paid ascii_tables [112, 97, 305, 100]"
    then obtain xs w ys where s: "[112, 97, 305, 100] = xs @ w @ ys" and w: "paid_word w"
      unfolding standalone_paid_def by blast
    from arg_cong[OF s, of length] have "length xs + length w + length ys = 4"
      by simp
    with paid_word_length[OF w] have "xs = []" "ys = []" by simp_all
    with s have "w = [112, 97, 305, 100]" by simp
    with w show False unfolding paid_word_def by simp
  qed
qed

text \<open>
  Claim C5, amended.  \<open>extract_invoice_data\<close> returns the payment status \<open>Paid\<close>
  when the word \<open>Paid\<close>, in any combination of cases or with U+0130 or U+0131 for its
  \<open>i\<close>, stands alone somewhere in the text, and \<open>Unpaid\<close> when it does not (an
  occurrence inside a longer word does not stand alone); in particular the status is
  \<open>Paid\<close> whenever a combination of cases of \<open>Paid\<close> stands alone in the text.
\<close>

theorem payment_status_standalone:
  "\<exists>d. extract_invoice_data U s = Inr d \<and>
     payment_status d =
       (if standalone_variant U s then Str (ustr ''Paid'') else Str (ustr ''Unpaid'')) \<and>
     (standalone_paid U s \<longrightarrow> payment_status d = Str (ustr ''Paid''))"
  unfolding extract_eq paid_search using standalone_paid_variant[of U s] by simp

text \<open>
  Instances: \<open>PAID\<close> after a colon and a space stands alone; \<open>Unpaid\<close> holds no
  word that stands alone.
\<close>

theorem payment_status_standalone_witness:
  "standalone_paid ascii_tables (ustr ''Status: PAID'') \<and>
   (\<exists>d. extract_invoice_data ascii_tables (ustr ''Status: PAID'') = Inr d \<and>
      payment_status d = Str (ustr ''Paid'')) \<and>
   \<not> standalone_variant ascii_tables (ustr ''Unpaid'') \<and>
   (\<exists>d. extract_invoice_data ascii_tables (ustr ''Unpaid'') = Inr d \<and>
      payment_status d = Str (ustr ''Unpaid''))"
proof -
  have 1: "standalone_paid ascii_tables (ustr ''Status: PAID'')"
    unfolding standalone_paid_def
    by (intro exI[of _ "ustr ''Status: ''"] exI[of _ "ustr ''PAID''"] exI[of _ "[]"])
       (simp add: ustr_def paid_word_def is_word_def)
  have 2: "payment_status d = Str (ustr ''Unpaid'')"
    if "extract_invoice_data ascii_tables (ustr ''Unpaid'') = Inr d" for d
    using that by (auto simp add: eval_defs simp del: atom_ok.simps(4))
  from payment_status_standalone[of ascii_tables "ustr ''Status: PAID''"] 1
  have 3: "\<exists>d. extract_invoice_data ascii_tables (ustr ''Status: PAID'') = Inr d \<and>
      payment_status d = Str (ustr ''Paid'')" by blast
  from payment_status_standalone[of ascii_tables "ustr ''Unpaid''"] obtain d where
    d: "extract_invoice_data ascii_tables (ustr ''Unpaid'') = Inr d"
      "payment_status d = (if standalone_variant ascii_tables (ustr ''Unpaid'')
         then Str (ustr ''Paid'') else Str (ustr ''Unpaid''))" by blast
  have ne: "Str (ustr ''Paid'') \<noteq> Str (ustr ''Unpaid'')" by (simp add: ustr_def)
  from 2[OF d(1)] d(2) ne have 4: "\<not> standalone_variant ascii_tables (ustr ''Unpaid'')"
    by (simp split: if_splits)
  from d(1) 2[OF d(1)] have 5: "\<exists>d. extract_invoice_data ascii_tables (ustr ''Unpaid'') = Inr d \<and>
      payment_status d = Str (ustr ''Unpaid'')" by blast
  from 1 3 4 5 show ?thesis by (intro conjI)
qed

text \<open>
  Claim C10.  The search for the invoice number is not anchored at the boundaries of a
  token: in \<open>ABCDEF123456\<close> no match starts at the first letter (at most five letters
  may precede the digits), and the match that starts at the second letter gives the proper
  substring \<open>BCDEF123456\<close>, neither \<open>Unknown\<close> nor the whole token.
\<close>

theorem invoice_number_not_anchored:
  "extract_invoice_data U (ustr ''ABCDEF123456'') =
     Inr \<lparr>invoice_number = Str (ustr ''BCDEF123456''), amount = Unknown, due_date = Unknown,
          payment_status = Str (ustr ''Unpaid'')\<rparr>"
  by (simp add: eval_defs del: atom_ok.simps(4))

text \<open>
  Claim C4.  The two examples: the text of an invoice with number, due date and total, and
  the same text followed by \<open>Status: Paid\<close>, after a space or directly.
\<close>

theorem end_to_end_examples:
  "extract_invoice_data U
     (ustr ''Invoice ABC123456 Due Date: 01/05/2025 Total '' @ [euro] @ ustr ''150.00'') =
     Inr \<lparr>invoice_number = Str (ustr ''ABC123456''), amount = Str (ustr ''150.00''),
          due_date = Str (ustr ''01/05/2025''), payment_status = Str (ustr ''Unpaid'')\<rparr> \<and>
   extract_invoice_data U
     (ustr ''Invoice ABC123456 Due Date: 01/05/2025 Total '' @ [euro] @
      ustr ''150.00 Status: Paid'') =
     Inr \<lparr>invoice_number = Str (ustr ''ABC123456''), amount = Str (ustr ''150.00''),
          due_date = Str (ustr ''01/05/2025''), payment_status = Str (ustr ''Paid'')\<rparr> \<and>
   extract_invoice_data U
     (ustr ''Invoice ABC123456 Due Date: 01/05/2025 Total '' @ [euro] @
      ustr ''150.00Status: Paid'') =
     Inr \<lparr>invoice_number = Str (ustr ''ABC123456''), amount = Str (ustr ''150.00''),
          due_date = Str (ustr ''01/05/2025''), payment_status = Str (ustr ''Paid'')\<rparr>"
  by (simp add: eval_defs del: atom_ok.simps(4))

lemma scan_all_fail:
  assumes "\<And>prev s' i. s' = [] \<or> is_space (hd s') \<Longrightarrow> try_at U ic p prev s' i = None"
    and "list_all is_space s"
  shows "scan U ic p prev s i = None"
  using assms(2)
proof (induction s arbitrary: prev i)
  case Nil
  then show ?case using assms(1)[of "[]"] by simp
next
  case (Cons c cs)
  then have "try_at U ic p prev (c # cs) i = None" using assms(1)[of "c # cs"] by simp
  with Cons show ?case by simp
qed

lemma space_not_letter: "is_space c \<Longrightarrow> \<not> atom_ok U True (Range 65 90) c"
  unfolding range_AZ_ic is_space_def by auto

lemma space_not_first:
  "is_space c \<Longrightarrow> \<not> atom_ok U False (Chr euro) c"
  "is_space c \<Longrightarrow> \<not> atom_ok U True (Chr 68) c"
  "is_space c \<Longrightarrow> \<not> atom_ok U True (Chr 80) c"
  by (auto simp: is_space_def euro_def ignorecase_variants_def Let_def)

lemma invoice_number_fail:
  assumes "s = [] \<or> is_space (hd s)"
  shows "try_at U True invoice_number_re prev s i = None"
proof -
  have n: "s = [] \<or> \<not> set_ok U True [Range 65 90] (hd s)"
    using assms space_not_letter[of "hd s" U] by (auto simp: set_ok_def simp del: atom_ok.simps)
  have "match_here U True [Rep [Range 65 90] 3 (Some 5), Rep [Digit] 6 (Some 8), GroupClose]
      prev s i (Some i) None = None"
    by (rule match_rep_none) (simp, rule n)
  then show ?thesis
    unfolding try_at_def invoice_number_re_def match_open by (simp only: option.case)
qed

lemma first_one_fail:
  assumes "s = [] \<or> \<not> atom_ok U ic a (hd s)"
  shows "match_here U ic (Rep [a] (Suc 0) (Some (Suc 0)) # ns) prev s i gs g = None"
  using assms unfolding match_one by (cases s) auto

lemma try_at_first_one_fail:
  assumes "s = [] \<or> \<not> atom_ok U ic a (hd s)"
  shows "try_at U ic (Rep [a] (Suc 0) (Some (Suc 0)) # ns) prev s i = None"
  unfolding try_at_def using first_one_fail[OF assms, of ns prev i None None]
  by (simp only: option.case)

lemma amount_fail:
  assumes "s = [] \<or> is_space (hd s)"
  shows "try_at U False amount_re prev s i = None"
  unfolding amount_re_def One_nat_def
proof (rule try_at_first_one_fail)
  show "s = [] \<or> \<not> atom_ok U False (Chr euro) (hd s)"
    using assms space_not_first(1)[of "hd s" U] by blast
qed

lemma due_date_fail:
  assumes "s = [] \<or> is_space (hd s)"
  shows "try_at U True due_date_re prev s i = None"
  unfolding due_date_re_def One_nat_def
proof (rule try_at_first_one_fail)
  show "s = [] \<or> \<not> atom_ok U True (Chr 68) (hd s)"
    using assms space_not_first(2)[of "hd s" U] by blast
qed

lemma match_boundary_eq:
  "match_here U ic (Boundary # ns) prev s i gs g =
     (if at_boundary U prev s then match_here U ic ns prev s i gs g else None)"
  by simp

lemma paid_fail:
  assumes "s = [] \<or> is_space (hd s)"
  shows "try_at U True paid_re prev s i = None"
proof -
  have "s = [] \<or> \<not> atom_ok U True (Chr 80) (hd s)"
    using assms space_not_first(3)[of "hd s" U] by blast
  from first_one_fail[OF this]
  show ?thesis
    unfolding try_at_def paid_re_def match_boundary_eq One_nat_def
    by (simp only: if_cancel option.case)
qed

lemma blank_searches:
  assumes "list_all is_space s"
  shows "re_search U True invoice_number_re s = None" "re_search U False amount_re s = None"
    "re_search U True due_date_re s = None" "re_search U True paid_re s = None"
  unfolding re_search_def
  using scan_all_fail[OF invoice_number_fail assms] scan_all_fail[OF amount_fail assms]
    scan_all_fail[OF due_date_fail assms] scan_all_fail[OF paid_fail assms]
  by simp_all

text \<open>
  Claim C3.  \<open>extract_invoice_data\<close> never raises: for every text it returns a record
  of the four fields.  A field whose pattern is found nowhere in the text is
  \<open>Unknown\<close>, and on a text of whitespace only (the empty text included) the three
  fields are \<open>Unknown\<close> and the payment status is \<open>Unpaid\<close>.
\<close>

theorem extract_total:
  "(\<exists>d. extract_invoice_data U s = Inr d \<and>
      (re_search U True invoice_number_re s = None \<longrightarrow> invoice_number d = Unknown) \<and>
      (re_search U False amount_re s = None \<longrightarrow> amount d = Unknown) \<and>
      (re_search U True due_date_re s = None \<longrightarrow> due_date d = Unknown)) \<and>
   (list_all is_space s \<longrightarrow>
      extract_invoice_data U s =
        Inr \<lparr>invoice_number = Unknown, amount = Unknown, due_date = Unknown,
             payment_status = Str (ustr ''Unpaid'')\<rparr>)"
proof (intro conjI impI)
  show "\<exists>d. extract_invoice_data U s = Inr d \<and>
      (re_search U True invoice_number_re s = None \<longrightarrow> invoice_number d = Unknown) \<and>
      (re_search U False amount_re s = None \<longrightarrow> amount d = Unknown) \<and>
      (re_search U True due_date_re s = None \<longrightarrow> due_date d = Unknown)"
    unfolding extract_eq by simp
next
  assume "list_all is_space s"
  from blank_searches[OF this, of U] show "extract_invoice_data U s =
        Inr \<lparr>invoice_number = Unknown, amount = Unknown, due_date = Unknown,
             payment_status = Str (ustr ''Unpaid'')\<rparr>"
    unfolding extract_eq by simp
qed

text \<open>Instances: the empty text, and a space, a tab and a line feed.\<close>

theorem extract_total_witness:
  "list_all is_space (ustr '' '' @ [9, 10]) \<and>
   extract_invoice_data ascii_tables [] =
     Inr \<lparr>invoice_number = Unknown, amount = Unknown, due_date = Unknown,
          payment_status = Str (ustr ''Unpaid'')\<rparr> \<and>
   extract_invoice_data ascii_tables (ustr '' '' @ [9, 10]) =
     Inr \<lparr>invoice_number = Unknown, amount = Unknown, due_date = Unknown,
          payment_status = Str (ustr ''Unpaid'')\<rparr>"
proof -
  have 1: "list_all is_space (ustr '' '' @ [9, 10])" by (simp add: ustr_def is_space_def)
  have 2: "list_all is_space []" by simp
  from extract_total[of ascii_tables "[]", THEN conjunct2, THEN mp, OF 2]
    extract_total[of ascii_tables "ustr '' '' @ [9, 10]", THEN conjunct2, THEN mp, OF 1] 1
  show ?thesis by (intro conjI)
qed














end
